theory Spec2Isabelle
  imports
    Main
    "HOL-Library.Multiset"
    "HOL-Library.Char_ord"
    "HOL-Library.List_Lexorder"
    "HOL-Library.Product_Lexorder"
begin

section \<open>Python strings\<close>

text \<open>
  A Python \<open>str\<close> is a sequence of code points. The embedding uses \<^typ>\<open>string\<close>, whose
  characters are the code points 0 to 255 (Latin-1); the character tables below
  (\<open>str.isspace\<close>, \<open>str.lower\<close>, the line boundaries of \<open>str.splitlines\<close>, the classes
  \<open>\s\<close> and \<open>\w\<close> of \<open>re\<close>) are Python's tables restricted to that range.
\<close>

definition ord :: "char \<Rightarrow> nat" where
  "ord c = of_char c"

text \<open>\<open>str.isspace\<close> on one character: TAB, LF, VT, FF, CR, FS, GS, RS, US, space, NEL, NBSP.\<close>

definition isspace :: "char \<Rightarrow> bool" where
  "isspace c = ((9 \<le> ord c \<and> ord c \<le> 13) \<or> (28 \<le> ord c \<and> ord c \<le> 32) \<or> ord c = 133 \<or> ord c = 160)"

text \<open>\<open>s.rstrip()\<close>, \<open>s.lstrip(chars)\<close> and \<open>s.strip()\<close>.\<close>

definition rstrip :: "string \<Rightarrow> string" where
  "rstrip s = rev (dropWhile isspace (rev s))"

definition lstrip_chars :: "string \<Rightarrow> string \<Rightarrow> string" where
  "lstrip_chars s chars = dropWhile (\<lambda>c. c \<in> set chars) s"

definition lstrip :: "string \<Rightarrow> string" where
  "lstrip s = dropWhile isspace s"

definition strip :: "string \<Rightarrow> string" where
  "strip s = rstrip (lstrip s)"

text \<open>\<open>s.endswith(suffix)\<close> and \<open>s.startswith(prefix)\<close>.\<close>

definition endswith :: "string \<Rightarrow> string \<Rightarrow> bool" where
  "endswith s suf = (length suf \<le> length s \<and> drop (length s - length suf) s = suf)"

definition startswith :: "string \<Rightarrow> string \<Rightarrow> bool" where
  "startswith s pre = (take (length pre) s = pre)"

text \<open>\<open>sub in s\<close>: \<open>sub\<close> occurs in \<open>s\<close> as a contiguous substring.\<close>

fun str_in :: "string \<Rightarrow> string \<Rightarrow> bool" where
  "str_in sub [] = (sub = [])"
| "str_in sub (c # cs) = (take (length sub) (c # cs) = sub \<or> str_in sub cs)"

text \<open>\<open>s.lower()\<close>: within Latin-1 the cased capitals are A-Z and U+00C0-U+00DE without
  U+00D7, each 32 below its small letter.\<close>

definition lower_char :: "char \<Rightarrow> char" where
  "lower_char c =
     (if (65 \<le> ord c \<and> ord c \<le> 90) \<or> (192 \<le> ord c \<and> ord c \<le> 222 \<and> ord c \<noteq> 215)
      then char_of (ord c + 32) else c)"

definition lower :: "string \<Rightarrow> string" where
  "lower s = map lower_char s"

text \<open>\<open>s.split(sep)\<close> for a one-character separator: splits at every occurrence, so the
  result has one more element than \<open>s\<close> has separators.\<close>

fun split :: "char \<Rightarrow> string \<Rightarrow> string list" where
  "split sep [] = [[]]"
| "split sep (c # cs) =
     (if c = sep then [] # split sep cs
      else (case split sep cs of [] \<Rightarrow> [[c]] | p # ps \<Rightarrow> (c # p) # ps))"

text \<open>\<open>s.split(sep, 1)\<close>: splits at the first occurrence only.\<close>

definition split1 :: "char \<Rightarrow> string \<Rightarrow> string list" where
  "split1 sep s =
     (if sep \<in> set s
      then [takeWhile (\<lambda>c. c \<noteq> sep) s, tl (dropWhile (\<lambda>c. c \<noteq> sep) s)]
      else [s])"

text \<open>\<open>s.splitlines()\<close>: the line boundaries are LF, VT, FF, CR, CR LF, FS, GS, RS and NEL;
  a final boundary opens no further line. The first argument is the current line, reversed.\<close>

definition is_linebreak :: "char \<Rightarrow> bool" where
  "is_linebreak c = ((10 \<le> ord c \<and> ord c \<le> 13) \<or> (28 \<le> ord c \<and> ord c \<le> 30) \<or> ord c = 133)"

fun splitlines_from :: "string \<Rightarrow> string \<Rightarrow> string list" where
  "splitlines_from cur [] = (if cur = [] then [] else [rev cur])"
| "splitlines_from cur [c] =
     (if is_linebreak c then [rev cur] else [rev (c # cur)])"
| "splitlines_from cur (c # d # cs) =
     (if ord c = 13 \<and> ord d = 10 then rev cur # splitlines_from [] cs
      else if is_linebreak c then rev cur # splitlines_from [] (d # cs)
      else splitlines_from (c # cur) (d # cs))"

definition splitlines :: "string \<Rightarrow> string list" where
  "splitlines s = splitlines_from [] s"

text \<open>\<open>enumerate(xs, start)\<close> and \<open>str(n)\<close> for an integer.\<close>

fun enumerate_from :: "int \<Rightarrow> 'a list \<Rightarrow> (int \<times> 'a) list" where
  "enumerate_from i [] = []"
| "enumerate_from i (x # xs) = (i, x) # enumerate_from (i + 1) xs"

definition digit_char :: "nat \<Rightarrow> char" where
  "digit_char d = char_of (48 + d)"

fun str_nat :: "nat \<Rightarrow> string" where
  "str_nat n = (if n < 10 then [digit_char n] else str_nat (n div 10) @ [digit_char (n mod 10)])"

definition str_int :: "int \<Rightarrow> string" where
  "str_int i = (if i < 0 then CHR ''-'' # str_nat (nat (- i)) else str_nat (nat i))"

section \<open>Line rules\<close>

text \<open>An issue is the tuple \<open>(line_number, message, file_path)\<close>.\<close>

type_synonym issue = "int \<times> string \<times> string"

definition is_line_too_long :: "string \<Rightarrow> bool" where
  "is_line_too_long line_of_code = (length (rstrip line_of_code) > 79)"

definition is_indentation_not_multiple_of_four :: "string \<Rightarrow> bool" where
  "is_indentation_not_multiple_of_four line_of_code =
     (let leading_spaces = int (length line_of_code) - int (length (lstrip_chars line_of_code '' ''))
      in leading_spaces mod 4 \<noteq> 0 \<and> leading_spaces \<noteq> 0)"

definition has_unnecessary_semicolon :: "string \<Rightarrow> bool" where
  "has_unnecessary_semicolon line_of_code =
     (let clean_line = rstrip (hd (split1 CHR ''#'' line_of_code))
      in endswith clean_line '';'' \<and> clean_line \<noteq> '';'')"

definition has_less_than_two_spaces_before_inline_comment :: "string \<Rightarrow> bool" where
  "has_less_than_two_spaces_before_inline_comment line_of_code =
     (if CHR ''#'' \<in> set line_of_code then
        (let parts = split1 CHR ''#'' line_of_code
         in if length (hd parts) \<noteq> 0 \<and> \<not> endswith (hd parts) ''  ''
               \<and> \<not> endswith (hd parts) [CHR 0x09]
            then True else False)
      else False)"

definition has_todo_comment :: "string \<Rightarrow> bool" where
  "has_todo_comment line_of_code =
     (let comment_parts = split CHR ''#'' line_of_code
      in if length comment_parts > 1 then
           (let comment = comment_parts ! 1 in str_in ''todo'' (lower comment))
         else False)"

section \<open>The blank-run rule\<close>

text \<open>
  The loop of \<open>has_more_than_two_blank_lines\<close>: \<open>i\<close> is the index \<open>enumerate\<close> gives the
  line, and the loop's state is \<open>blank_line_count\<close> and \<open>issue_lines\<close>.
\<close>

fun blank_lines_loop :: "int \<Rightarrow> int \<Rightarrow> int list \<Rightarrow> string list \<Rightarrow> int list" where
  "blank_lines_loop i blank_line_count issue_lines [] = issue_lines"
| "blank_lines_loop i blank_line_count issue_lines (line # lines) =
     (if strip line = []
      then blank_lines_loop (i + 1) (blank_line_count + 1) issue_lines lines
      else blank_lines_loop (i + 1) 0
             (if blank_line_count > 2
              then issue_lines @ [i - blank_line_count + blank_line_count + 1]
              else issue_lines)
             lines)"

definition has_more_than_two_blank_lines :: "string list \<Rightarrow> int list" where
  "has_more_than_two_blank_lines lines = blank_lines_loop 0 0 [] lines"


section \<open>Regular expressions\<close>

text \<open>
  The patterns the analyzer hands to \<open>re.match\<close>, as syntax trees, and a backtracking matcher
  for them. \<open>Rep n r\<close> is the greedy \<open>r{n,}\<close>, so \<open>r*\<close> is \<open>Rep 0 r\<close> and \<open>r+\<close> is \<open>Rep 1 r\<close>;
  \<open>Opt r\<close> is the greedy \<open>r?\<close>; \<open>Group r\<close> is a capturing group (no pattern here has more
  than one, so it is group 1); \<open>Bol\<close>, \<open>Eol\<close> and \<open>WordB\<close> are \<open>^\<close>, \<open>$\<close> and \<open>\b\<close>.
\<close>

datatype regex =
    Eps
  | Sym "char \<Rightarrow> bool"
  | Seq regex regex
  | Opt regex
  | Rep nat regex
  | Group regex
  | Bol
  | Eol
  | WordB

text \<open>
  A state of the matcher: the character before the current position (\<open>None\<close> at the start
  of the string), the text from the current position on, and what group 1 captured.
\<close>

record mstate =
  prev :: "char option"
  rest :: string
  group1 :: "string option"

text \<open>The class \<open>\w\<close> of a \<open>str\<close> pattern: \<open>str.isalnum\<close> or the underscore.\<close>

definition isalnum :: "char \<Rightarrow> bool" where
  "isalnum c =
     ((48 \<le> ord c \<and> ord c \<le> 57) \<or> (65 \<le> ord c \<and> ord c \<le> 90) \<or> (97 \<le> ord c \<and> ord c \<le> 122)
      \<or> ord c \<in> {170, 178, 179, 181, 185, 186, 188, 189, 190}
      \<or> (192 \<le> ord c \<and> ord c \<noteq> 215 \<and> ord c \<noteq> 247))"

definition is_word :: "char \<Rightarrow> bool" where
  "is_word c = (isalnum c \<or> c = CHR ''_'')"

definition word_at :: "char option \<Rightarrow> bool" where
  "word_at x = (case x of None \<Rightarrow> False | Some c \<Rightarrow> is_word c)"

definition next_char :: "mstate \<Rightarrow> char option" where
  "next_char st = (case rest st of [] \<Rightarrow> None | c # _ \<Rightarrow> Some c)"

text \<open>
  The greedy repetition \<open>r{n,}\<close>: one more round of the body first, then (once \<open>n\<close> rounds are
  done) stopping here. A round that consumes nothing is not repeated, as in \<open>re\<close>; the
  first argument bounds the rounds by the length of the text left.
\<close>

fun rep_run :: "nat \<Rightarrow> nat \<Rightarrow> (mstate \<Rightarrow> mstate list) \<Rightarrow> mstate \<Rightarrow> mstate list" where
  "rep_run 0 n body st = (if n = 0 then [st] else [])"
| "rep_run (Suc k) n body st =
     concat (map (rep_run k (n - 1) body)
               (filter (\<lambda>st'. length (rest st') < length (rest st)) (body st)))
     @ (if n = 0 then [st] else [])"

text \<open>
  \<open>re_run r st\<close>: the states in which a match of \<open>r\<close> that starts in \<open>st\<close> can end, in the
  order in which the backtracking matcher tries them.
\<close>

primrec re_run :: "regex \<Rightarrow> mstate \<Rightarrow> mstate list" where
  "re_run Eps st = [st]"
| "re_run (Sym p) st =
     (case rest st of
        [] \<Rightarrow> []
      | c # cs \<Rightarrow> if p c then [st\<lparr>prev := Some c, rest := cs\<rparr>] else [])"
| "re_run (Seq r1 r2) st = concat (map (re_run r2) (re_run r1 st))"
| "re_run (Opt r) st = re_run r st @ [st]"
| "re_run (Rep n r) st = rep_run (length (rest st)) n (re_run r) st"
| "re_run (Group r) st =
     map (\<lambda>st'. st'\<lparr>group1 := Some (take (length (rest st) - length (rest st')) (rest st))\<rparr>)
       (re_run r st)"
| "re_run Bol st = (if prev st = None then [st] else [])"
| "re_run Eol st = (if rest st = [] \<or> rest st = [CHR 0x0A] then [st] else [])"
| "re_run WordB st = (if word_at (prev st) \<noteq> word_at (next_char st) then [st] else [])"

text \<open>\<open>re.match(pattern, s)\<close>: the first match that starts at the beginning of \<open>s\<close>, if any.\<close>

definition re_match :: "regex \<Rightarrow> string \<Rightarrow> mstate option" where
  "re_match pattern s =
     (case re_run pattern \<lparr>prev = None, rest = s, group1 = None\<rparr> of
        [] \<Rightarrow> None
      | m # _ \<Rightarrow> Some m)"

text \<open>A literal text, a sequence of patterns, and the classes \<open>[a-z0-9]\<close> and \<open>[A-Z]\<close>.\<close>

fun seqs :: "regex list \<Rightarrow> regex" where
  "seqs [] = Eps"
| "seqs [r] = r"
| "seqs (r # rs) = Seq r (seqs rs)"

definition lit :: "string \<Rightarrow> regex" where
  "lit s = seqs (map (\<lambda>c. Sym (\<lambda>x. x = c)) s)"

definition lower_or_digit :: "char \<Rightarrow> bool" where
  "lower_or_digit c = ((97 \<le> ord c \<and> ord c \<le> 122) \<or> (48 \<le> ord c \<and> ord c \<le> 57))"

definition upper_az :: "char \<Rightarrow> bool" where
  "upper_az c = (65 \<le> ord c \<and> ord c \<le> 90)"

section \<open>Naming classifiers\<close>

text \<open>\<^verbatim>\<open>^[A-Z]([a-z0-9]+[A-Z]?)*$\<close>\<close>

definition camel_case_re :: regex where
  "camel_case_re =
     seqs [Bol, Sym upper_az,
           Rep 0 (Group (Seq (Rep 1 (Sym lower_or_digit)) (Opt (Sym upper_az)))), Eol]"

definition is_camel_case :: "string \<Rightarrow> bool" where
  "is_camel_case name = (re_match camel_case_re name \<noteq> None)"

text \<open>\<^verbatim>\<open>^_?[a-z0-9]+(_[a-z0-9]+)*_?$\<close>\<close>

definition snake_case_re :: regex where
  "snake_case_re =
     seqs [Bol, Opt (Sym (\<lambda>c. c = CHR ''_'')), Rep 1 (Sym lower_or_digit),
           Rep 0 (Group (Seq (Sym (\<lambda>c. c = CHR ''_'')) (Rep 1 (Sym lower_or_digit)))),
           Opt (Sym (\<lambda>c. c = CHR ''_'')), Eol]"

definition is_snake_case :: "string \<Rightarrow> bool" where
  "is_snake_case name = (re_match snake_case_re name \<noteq> None)"

section \<open>Line rules that use patterns\<close>

text \<open>\<^verbatim>\<open>\bclass\s{2,}\<close> and \<^verbatim>\<open>\bdef\s{2,}\<close>\<close>

definition class_spaces_re :: regex where
  "class_spaces_re = seqs [WordB, lit ''class'', Rep 2 (Sym isspace)]"

definition def_spaces_re :: regex where
  "def_spaces_re = seqs [WordB, lit ''def'', Rep 2 (Sym isspace)]"

definition check_too_many_spaces_after_construction_name :: "string \<Rightarrow> bool \<times> string option" where
  "check_too_many_spaces_after_construction_name line_of_code =
     (let match_class = re_match class_spaces_re line_of_code;
          match_def = re_match def_spaces_re (lstrip line_of_code)
      in if match_class \<noteq> None then (True, Some ''class'')
         else if match_def \<noteq> None then (True, Some ''def'')
         else (False, None))"

text \<open>\<^verbatim>\<open>class\s+(\w+)\<close>\<close>

definition class_name_re :: regex where
  "class_name_re = seqs [lit ''class'', Rep 1 (Sym isspace), Group (Rep 1 (Sym is_word))]"

text \<open>What an f-string prints for a value that may be \<open>None\<close>, and a text in single quotes.\<close>

definition format_opt :: "string option \<Rightarrow> string" where
  "format_opt x = (case x of None \<Rightarrow> ''None'' | Some s \<Rightarrow> s)"

definition quoted :: "string \<Rightarrow> string" where
  "quoted s = [CHR 0x27] @ s @ [CHR 0x27]"

text \<open>
  The body of the loop over the lines in \<open>analyze_file\<close>: the issues of one line, in the
  order in which they are appended. Group 1 of \<^verbatim>\<open>class\s+(\w+)\<close> takes part in every match,
  so \<open>class_match.group(1)\<close> is never \<open>None\<close> (lemma \<open>class_match_group1\<close>).
\<close>

definition check_line :: "int \<Rightarrow> string \<Rightarrow> string \<Rightarrow> issue list" where
  "check_line line_number line_of_code file_path =
     (if is_line_too_long line_of_code then [(line_number, ''S001 Too long'', file_path)] else [])
     @ (if is_indentation_not_multiple_of_four line_of_code
        then [(line_number, ''S002 Indentation is not a multiple of four'', file_path)] else [])
     @ (if has_unnecessary_semicolon line_of_code
        then [(line_number, ''S003 Unnecessary semicolon'', file_path)] else [])
     @ (if has_less_than_two_spaces_before_inline_comment line_of_code
        then [(line_number, ''S004 At least two spaces required before inline comments'', file_path)]
        else [])
     @ (if has_todo_comment line_of_code then [(line_number, ''S005 TODO found'', file_path)] else [])
     @ (case check_too_many_spaces_after_construction_name line_of_code of
          (too_many_spaces, construction_name) \<Rightarrow>
            if too_many_spaces
            then [(line_number,
                   ''S007 Too many spaces after '' @ quoted (format_opt construction_name), file_path)]
            else [])
     @ (case re_match class_name_re line_of_code of
          None \<Rightarrow> []
        | Some class_match \<Rightarrow>
            (case group1 class_match of
               None \<Rightarrow> []
             | Some class_name \<Rightarrow>
                 if \<not> is_camel_case class_name
                 then [(line_number,
                        ''S008 Class name '' @ quoted class_name @ '' should use CamelCase'', file_path)]
                 else []))"

section \<open>Syntax trees\<close>

text \<open>
  The nodes of \<open>ast\<close> that the tree rules tell apart, with their fields in the order of
  \<open>_fields\<close>; every other kind of node is \<open>Other\<close> with its child nodes in that order.
  The leaves \<open>Load\<close>, \<open>Store\<close> and \<open>Del\<close> (the \<open>ctx\<close> of a name or a display) have no fields and
  are no function or assignment, and are left out.
\<close>

datatype node =
    FunctionDef (name: string) (args: arguments) (body: "node list")
      (decorator_list: "node list") (returns: "node option") (lineno: int)
  | AsyncFunctionDef (name: string) (args: arguments) (body: "node list")
      (decorator_list: "node list") (returns: "node option") (lineno: int)
  | Lambda arguments node
  | Assign (targets: "node list") (val: node) (lineno: int)
  | Name (name_id: string)
  | List "node list"
  | Dict "node option list" "node list"
  | Set "node list"
  | Other "node list"
and arguments =
    Arguments (posonlyargs: "arg list") (args_a: "arg list") (vararg: "arg option")
      (kwonlyargs: "arg list") (kw_defaults: "node option list") (kwarg: "arg option")
      (defaults: "node list")
and arg =
    Arg (arg: string) (annotation: "node option") (lineno_a: int)

text \<open>An instance of \<open>ast.AST\<close>, as \<open>ast.walk\<close> meets it.\<close>

datatype ast = NodeA node | ArgumentsA arguments | ArgA arg

definition present :: "'a option list \<Rightarrow> 'a list" where
  "present xs = concat (map (\<lambda>x. case x of None \<Rightarrow> [] | Some y \<Rightarrow> [y]) xs)"

text \<open>\<open>ast.iter_child_nodes\<close>: the fields that are nodes, and the nodes of the fields that
  are lists, in the order of the fields.\<close>

fun iter_child_nodes :: "ast \<Rightarrow> ast list" where
  "iter_child_nodes (NodeA (FunctionDef n a b d r l)) =
     ArgumentsA a # map NodeA b @ map NodeA d @ map NodeA (present [r])"
| "iter_child_nodes (NodeA (AsyncFunctionDef n a b d r l)) =
     ArgumentsA a # map NodeA b @ map NodeA d @ map NodeA (present [r])"
| "iter_child_nodes (NodeA (Lambda a b)) = [ArgumentsA a, NodeA b]"
| "iter_child_nodes (NodeA (Assign ts v l)) = map NodeA ts @ [NodeA v]"
| "iter_child_nodes (NodeA (Name i)) = []"
| "iter_child_nodes (NodeA (List elts)) = map NodeA elts"
| "iter_child_nodes (NodeA (Dict keys vals)) = map NodeA (present keys) @ map NodeA vals"
| "iter_child_nodes (NodeA (Set elts)) = map NodeA elts"
| "iter_child_nodes (NodeA (Other children)) = map NodeA children"
| "iter_child_nodes (ArgumentsA (Arguments po ar va ko kd kw de)) =
     map ArgA po @ map ArgA ar @ map ArgA (present [va]) @ map ArgA ko
     @ map NodeA (present kd) @ map ArgA (present [kw]) @ map NodeA de"
| "iter_child_nodes (ArgA (Arg n ann l)) = map NodeA (present [ann])"

text \<open>The measure under which \<open>ast.walk\<close> ends.\<close>

fun ast_weight :: "ast \<Rightarrow> nat" where
  "ast_weight (NodeA n) = Suc (2 * size n)"
| "ast_weight (ArgumentsA a) = Suc (2 * size a)"
| "ast_weight (ArgA a) = Suc (2 * size a)"

lemma sum_weight_NodeA: "sum_list (map (ast_weight \<circ> NodeA) xs) \<le> 2 * size_list size xs"
  by (induction xs) auto

lemma sum_weight_ArgA: "sum_list (map (ast_weight \<circ> ArgA) xs) \<le> 2 * size_list size xs"
  by (induction xs) auto

lemma sum_weight_present:
  "sum_list (map (ast_weight \<circ> NodeA) (present xs)) \<le> 2 * size_list (size_option size) xs"
  by (induction xs) (auto simp: present_def split: option.splits)

lemma sum_weight_present1:
  "sum_list (map (ast_weight \<circ> NodeA) (present [x])) \<le> 2 * size_option size x"
  by (cases x) (auto simp: present_def)

lemma sum_weight_presentA1:
  "sum_list (map (ast_weight \<circ> ArgA) (present [x])) \<le> 2 * size_option size x"
  by (cases x) (auto simp: present_def)

lemma children_weight: "sum_list (map ast_weight (iter_child_nodes x)) < ast_weight x"
proof (cases x)
  case (NodeA n)
  show ?thesis
  proof (cases n)
    case (FunctionDef nm a b d r l)
    then show ?thesis
      using NodeA sum_weight_NodeA [of b] sum_weight_NodeA [of d] sum_weight_present1 [of r]
      by simp
  next
    case (AsyncFunctionDef nm a b d r l)
    then show ?thesis
      using NodeA sum_weight_NodeA [of b] sum_weight_NodeA [of d] sum_weight_present1 [of r]
      by simp
  next
    case (Lambda a b)
    then show ?thesis using NodeA by simp
  next
    case (Assign ts v l)
    then show ?thesis using NodeA sum_weight_NodeA [of ts] by simp
  next
    case (Name i)
    then show ?thesis using NodeA by simp
  next
    case (List es)
    then show ?thesis using NodeA sum_weight_NodeA [of es] by simp
  next
    case (Dict ks vs)
    then show ?thesis using NodeA sum_weight_present [of ks] sum_weight_NodeA [of vs] by simp
  next
    case (Set es)
    then show ?thesis using NodeA sum_weight_NodeA [of es] by simp
  next
    case (Other cs)
    then show ?thesis using NodeA sum_weight_NodeA [of cs] by simp
  qed
next
  case (ArgumentsA a)
  show ?thesis
  proof (cases a)
    case (Arguments po ar va ko kd kw de)
    then show ?thesis
      using ArgumentsA sum_weight_present [of kd] sum_weight_ArgA [of po] sum_weight_ArgA [of ar]
        sum_weight_ArgA [of ko] sum_weight_NodeA [of de] sum_weight_presentA1 [of va]
        sum_weight_presentA1 [of kw]
      by simp
  qed
next
  case (ArgA a)
  show ?thesis
  proof (cases a)
    case (Arg n ann l)
    then show ?thesis using ArgA sum_weight_present1 [of ann] by simp
  qed
qed

text \<open>
  \<open>ast.walk\<close>: the queue \<open>todo\<close> is emptied from the left, and the children of the node taken
  are added on the right, so the nodes come out breadth-first.
\<close>

function walk_from :: "ast list \<Rightarrow> ast list" where
  "walk_from [] = []"
| "walk_from (n # todo) = n # walk_from (todo @ iter_child_nodes n)"
  by pat_completeness auto
termination
  by (relation "measure (\<lambda>q. sum_list (map ast_weight q))") (use children_weight in auto)

definition walk :: "ast \<Rightarrow> ast list" where
  "walk n = walk_from [n]"

section \<open>Tree rules\<close>

definition check_function_args :: "node \<Rightarrow> string \<Rightarrow> issue list" where
  "check_function_args node filepath =
     concat (map (\<lambda>a. if \<not> is_snake_case (arg a)
                       then [(lineno_a a,
                              ''S010 Argument name '' @ quoted (arg a) @ '' should be snake_case'',
                              filepath)]
                       else [])
               (args_a (args node)))"

text \<open>The two loops of \<open>check_function_body_for_variables\<close>: over the targets of an
  assignment, and over the nodes that \<open>ast.walk\<close> visits.\<close>

fun target_issues :: "node \<Rightarrow> int \<Rightarrow> string \<Rightarrow> issue list" where
  "target_issues (Name i) body_lineno filepath =
     (if \<not> is_snake_case i
      then [(body_lineno, ''S011 Variable '' @ quoted i @ '' in function should be snake_case'',
             filepath)]
      else [])"
| "target_issues _ body_lineno filepath = []"

fun body_node_issues :: "ast \<Rightarrow> string \<Rightarrow> issue list" where
  "body_node_issues (NodeA (Assign ts v l)) filepath =
     concat (map (\<lambda>target. target_issues target l filepath) ts)"
| "body_node_issues _ filepath = []"

definition check_function_body_for_variables :: "node \<Rightarrow> string \<Rightarrow> issue list" where
  "check_function_body_for_variables node filepath =
     concat (map (\<lambda>body_node. body_node_issues body_node filepath) (walk (NodeA node)))"

text \<open>\<open>isinstance(default, (ast.List, ast.Dict, ast.Set))\<close>\<close>

fun is_list_dict_set :: "node \<Rightarrow> bool" where
  "is_list_dict_set (List _) = True"
| "is_list_dict_set (Dict _ _) = True"
| "is_list_dict_set (Set _) = True"
| "is_list_dict_set _ = False"

definition check_mutable_default_arguments :: "node \<Rightarrow> string \<Rightarrow> issue list" where
  "check_mutable_default_arguments node filepath =
     concat (map (\<lambda>default. if is_list_dict_set default
                             then [(lineno node, ''S012 Default argument value is mutable'', filepath)]
                             else [])
               (defaults (args node)))"

text \<open>The body of the loop of \<open>check_function_defs\<close>, and the loop.\<close>

fun function_def_issues :: "ast \<Rightarrow> string \<Rightarrow> issue list" where
  "function_def_issues (NodeA (FunctionDef n a b d r l)) filepath =
     (if \<not> (startswith n ''__'' \<and> endswith n ''__'')
      then (if \<not> is_snake_case n
            then [(l, ''S009 Function name '' @ quoted n @ '' should use snake_case'', filepath)]
            else [])
      else [])
     @ check_function_args (FunctionDef n a b d r l) filepath
     @ check_function_body_for_variables (FunctionDef n a b d r l) filepath
     @ check_mutable_default_arguments (FunctionDef n a b d r l) filepath"
| "function_def_issues _ filepath = []"

definition check_function_defs :: "node \<Rightarrow> string \<Rightarrow> issue list" where
  "check_function_defs tree filepath =
     concat (map (\<lambda>node. function_def_issues node filepath) (walk (NodeA tree)))"

section \<open>The file analyzer\<close>

text \<open>
  What the analyzer takes from its surroundings: reading a file (\<open>open(path, 'r').read()\<close>),
  the parser \<open>ast.parse\<close>, \<open>os.path.relpath(path, start=os.getcwd())\<close>, \<open>os.walk\<close>,
  \<open>os.path.isdir\<close> and \<open>os.path.isfile\<close>. Reading and parsing raise or return.
\<close>

datatype exception = SyntaxError | OSError | Raised string | SystemExit string

record env =
  read_file :: "string \<Rightarrow> exception + string"
  ast_parse :: "string \<Rightarrow> exception + node"
  relpath :: "string \<Rightarrow> string"
  os_walk :: "string \<Rightarrow> (string \<times> string list \<times> string list) list"
  isdir :: "string \<Rightarrow> bool"
  isfile :: "string \<Rightarrow> bool"

definition analyze_code_with_ast :: "env \<Rightarrow> string \<Rightarrow> string \<Rightarrow> exception + issue list" where
  "analyze_code_with_ast e code filepath =
     (case ast_parse e code of
        Inl err \<Rightarrow> Inl err
      | Inr tree \<Rightarrow> Inr (check_function_defs tree filepath))"

text \<open>The issues of the line rules and of the blank-run rule, as \<open>analyze_file\<close> has them in
  \<open>issues\<close> when it calls the parser.\<close>

definition line_issues :: "string \<Rightarrow> string \<Rightarrow> issue list" where
  "line_issues code file_path =
     (let lines = splitlines code;
          issues = concat (map (\<lambda>(line_number, line_of_code).
                                  check_line line_number line_of_code file_path)
                             (enumerate_from 1 lines));
          excessive_blank_lines = has_more_than_two_blank_lines lines
      in issues @ map (\<lambda>line_number. (line_number, ''S006 More than two blank lines used'', file_path))
                    excessive_blank_lines)"

definition analyze_file :: "env \<Rightarrow> string \<Rightarrow> exception + issue list" where
  "analyze_file e file_path =
     (case read_file e file_path of
        Inl err \<Rightarrow> Inl err
      | Inr code \<Rightarrow>
          (let issues = line_issues code file_path
           in case analyze_code_with_ast e code file_path of
                Inl err \<Rightarrow> Inl err
              | Inr tree_issues \<Rightarrow> Inr (issues @ tree_issues)))"

text \<open>\<open>os.path.join\<close> of two POSIX paths.\<close>

definition os_path_join :: "string \<Rightarrow> string \<Rightarrow> string" where
  "os_path_join a b =
     (if startswith b ''/'' then b
      else if a = [] \<or> endswith a ''/'' then a @ b
      else a @ ''/'' @ b)"

text \<open>The paths that the two loops of \<open>analyze_directory\<close> reach, in their order, and the
  loop over them: \<open>all_issues\<close> grows file by file, and an exception ends the loop.\<close>

definition python_files :: "env \<Rightarrow> string \<Rightarrow> string list" where
  "python_files e directory_path =
     concat (map (\<lambda>(root, dirs, files).
                    map (os_path_join root) (filter (\<lambda>file. endswith file ''.py'') files))
               (os_walk e directory_path))"

fun analyze_files :: "env \<Rightarrow> string list \<Rightarrow> issue list \<Rightarrow> exception + issue list" where
  "analyze_files e [] all_issues = Inr all_issues"
| "analyze_files e (file_path # file_paths) all_issues =
     (case analyze_file e file_path of
        Inl err \<Rightarrow> Inl err
      | Inr file_issues \<Rightarrow> analyze_files e file_paths (all_issues @ file_issues))"

definition analyze_directory :: "env \<Rightarrow> string \<Rightarrow> exception + issue list" where
  "analyze_directory e directory_path = analyze_files e (python_files e directory_path) []"

section \<open>The report\<close>

text \<open>The key of \<open>sorted\<close> in \<open>print_issues\<close>, \<open>(x[2], x[0], x[1])\<close>; tuples compare
  lexicographically, strings by code points, as the orders of \<open>Product_Lexorder\<close>,
  \<open>List_Lexorder\<close> and \<open>Char_ord\<close> do.\<close>

definition issue_key :: "issue \<Rightarrow> string \<times> int \<times> string" where
  "issue_key x = (snd (snd x), fst x, fst (snd x))"

definition render :: "env \<Rightarrow> issue \<Rightarrow> string" where
  "render e x =
     (case x of (line_number, message, file_path) \<Rightarrow>
        relpath e file_path @ '': Line '' @ str_int line_number @ '': '' @ message)"

text \<open>\<open>print_issues\<close>: the lines it prints, in order.\<close>

definition print_issues :: "env \<Rightarrow> issue list \<Rightarrow> string list" where
  "print_issues e issues = map (render e) (sort_key issue_key issues)"

text \<open>The script, called with one argument: what it prints, or how it ends early.\<close>

definition main :: "env \<Rightarrow> string \<Rightarrow> exception + string list" where
  "main e path =
     (if isdir e path then
        (case analyze_directory e path of
           Inl err \<Rightarrow> Inl err
         | Inr issues \<Rightarrow> Inr (print_issues e issues))
      else if isfile e path then
        (case analyze_file e path of
           Inl err \<Rightarrow> Inl err
         | Inr issues \<Rightarrow> Inr (print_issues e issues))
      else Inl (SystemExit (''Error: '' @ path @ '' is neither a file nor a directory'')))"

section \<open>Sample environments\<close>

text \<open>
  A file whose text CPython's parser rejects, and a directory \<open>d\<close> with the Python files
  \<open>a.py\<close> and \<open>b.py\<close>, given with the file names in the order in which \<open>os.walk\<close> lists them.
\<close>

definition unparsable_env :: env where
  "unparsable_env =
     \<lparr>read_file = (\<lambda>p. Inr ''def f(:;''),
      ast_parse = (\<lambda>s. Inl SyntaxError),
      relpath = (\<lambda>p. p),
      os_walk = (\<lambda>d. []),
      isdir = (\<lambda>p. False),
      isfile = (\<lambda>p. True)\<rparr>"

definition sample_dir_env :: "string list \<Rightarrow> env" where
  "sample_dir_env files =
     \<lparr>read_file = (\<lambda>p. if p = ''d/a.py'' then Inr ''x = 1;'' else Inr ''import os # TODO''),
      ast_parse = (\<lambda>s. if s = ''x = 1;'' then Inr (Other [Assign [Name ''x''] (Other []) 1])
                         else Inr (Other [Other [Other []]])),
      relpath = (\<lambda>p. p),
      os_walk = (\<lambda>d. [(d, [], files)]),
      isdir = (\<lambda>p. p = ''d''),
      isfile = (\<lambda>p. p \<noteq> ''d'')\<rparr>"

section \<open>Specification-level notions\<close>

text \<open>The length of the maximal run of blank lines that ends right before index \<open>i\<close>.\<close>

definition blank_run_before :: "string list \<Rightarrow> nat \<Rightarrow> nat" where
  "blank_run_before lines i = length (takeWhile (\<lambda>l. strip l = []) (rev (take i lines)))"

text \<open>The rule code of an issue: the first four characters of its message.\<close>

definition issue_code :: "issue \<Rightarrow> string" where
  "issue_code x = take 4 (fst (snd x))"

text \<open>
  A statement inside \<open>k\<close> nested definitions of a function \<open>f()\<close>; the S011 issues that one
  node of the walk contributes; the S011 and S012 issues.
\<close>

definition no_arguments :: arguments where
  "no_arguments = Arguments [] [] None [] [] None []"

fun nested_def :: "nat \<Rightarrow> node \<Rightarrow> node" where
  "nested_def 0 stmt = stmt"
| "nested_def (Suc k) stmt = FunctionDef ''f'' no_arguments [nested_def k stmt] [] None 1"

fun function_body_issues :: "ast \<Rightarrow> string \<Rightarrow> issue list" where
  "function_body_issues (NodeA (FunctionDef n a b d r l)) filepath =
     check_function_body_for_variables (FunctionDef n a b d r l) filepath"
| "function_body_issues _ filepath = []"

definition s011_issue :: "int \<Rightarrow> string \<Rightarrow> string \<Rightarrow> issue" where
  "s011_issue line_number v filepath =
     (line_number, ''S011 Variable '' @ quoted v @ '' in function should be snake_case'', filepath)"

definition s012_issue :: "int \<Rightarrow> string \<Rightarrow> issue" where
  "s012_issue line_number filepath = (line_number, ''S012 Default argument value is mutable'', filepath)"

section \<open>The blank-run rule: proofs\<close>

lemma blank_run_before_Suc:
  "blank_run_before (p @ l # ls) (Suc (length p)) =
     (if strip l = [] then Suc (blank_run_before (p @ l # ls) (length p)) else 0)"
  by (simp add: blank_run_before_def)

lemma blank_lines_loop_char:
  "blank_lines_loop (int (length p)) (int (blank_run_before (p @ ls) (length p))) acc ls =
   acc @ [int i + 1. i \<leftarrow> [length p..<length p + length ls],
            strip ((p @ ls) ! i) \<noteq> [] \<and> 2 < blank_run_before (p @ ls) i]"
proof (induction ls arbitrary: p acc)
  case Nil
  then show ?case by simp
next
  case (Cons l ls)
  let ?k = "length p"
  let ?f = "\<lambda>i. if strip ((p @ l # ls) ! i) \<noteq> [] \<and> 2 < blank_run_before (p @ l # ls) i
               then [int i + 1] else []"
  have ih: "blank_lines_loop (int (Suc ?k)) (int (blank_run_before (p @ l # ls) (Suc ?k))) acc' ls =
      acc' @ concat (map ?f [Suc ?k..<Suc ?k + length ls])" for acc'
    using Cons.IH [of "p @ [l]" acc'] by simp
  have "[?k..<?k + length (l # ls)] = ?k # [Suc ?k..<Suc ?k + length ls]"
    by (subst upt_rec) simp
  then have rhs: "acc @ concat (map ?f [?k..<?k + length (l # ls)]) =
      (acc @ ?f ?k) @ concat (map ?f [Suc ?k..<Suc ?k + length ls])"
    by (simp only: list.map concat.simps append_assoc)
  have "blank_lines_loop (int ?k) (int (blank_run_before (p @ l # ls) ?k)) acc (l # ls) =
      blank_lines_loop (int (Suc ?k)) (int (blank_run_before (p @ l # ls) (Suc ?k))) (acc @ ?f ?k) ls"
    by (simp add: blank_run_before_Suc add.commute)
  also have "\<dots> = (acc @ ?f ?k) @ concat (map ?f [Suc ?k..<Suc ?k + length ls])"
    by (rule ih)
  finally show ?case
    by (simp only: rhs)
qed

lemma has_more_than_two_blank_lines_char:
  "has_more_than_two_blank_lines lines =
     [int i + 1. i \<leftarrow> [0..<length lines], strip (lines ! i) \<noteq> [] \<and> 2 < blank_run_before lines i]"
  using blank_lines_loop_char [of "[]" lines "[]"]
  by (simp add: has_more_than_two_blank_lines_def blank_run_before_def)

lemma set_concat_if:
  "set (concat (map (\<lambda>i. if P i then [g i] else []) xs)) = g ` {i \<in> set xs. P i}"
  by (induction xs) auto
lemma concat_if_Nil:
  "(\<And>i. i \<in> set xs \<Longrightarrow> \<not> P i) \<Longrightarrow> concat (map (\<lambda>i. if P i then [g i] else []) xs) = []"
  by (induction xs) auto
lemma concat_if_map_filter:
  "concat (map (\<lambda>i. if P i then [g i] else []) xs) = map g (filter P xs)"
  by (induction xs) auto

lemma in_has_more_than_two_blank_lines:
  "n \<in> set (has_more_than_two_blank_lines lines) \<longleftrightarrow>
     (\<exists>i < length lines. n = int i + 1 \<and> strip (lines ! i) \<noteq> [] \<and> 2 < blank_run_before lines i)"
  unfolding has_more_than_two_blank_lines_char set_concat_if by auto

lemma blank_run_before_append:
  "i \<le> length lines \<Longrightarrow> blank_run_before (lines @ extra) i = blank_run_before lines i"
  by (simp add: blank_run_before_def)

lemma blank_trailing:
  assumes "\<forall>l \<in> set trailing. strip l = []"
  shows "has_more_than_two_blank_lines (lines @ trailing) = has_more_than_two_blank_lines lines"
proof -
  let ?f = "\<lambda>ls i. if strip (ls ! i) \<noteq> [] \<and> 2 < blank_run_before ls i then [int i + 1] else []"
  have a: "map (?f (lines @ trailing)) [0..<length lines] = map (?f lines) [0..<length lines]"
    by (rule map_cong) (simp_all add: nth_append blank_run_before_append)
  have b: "concat (map (?f (lines @ trailing)) [length lines..<length lines + length trailing]) = []"
  proof (rule concat_if_Nil)
    fix i assume "i \<in> set [length lines..<length lines + length trailing]"
    then have "length lines \<le> i" "i - length lines < length trailing" by auto
    then have "(lines @ trailing) ! i \<in> set trailing"
      by (simp add: nth_append)
    with assms show "\<not> (strip ((lines @ trailing) ! i) \<noteq> [] \<and> 2 < blank_run_before (lines @ trailing) i)"
      by simp
  qed
  have "[0..<length (lines @ trailing)] = [0..<length lines] @ [length lines..<length lines + length trailing]"
    unfolding length_append by (rule upt_add_eq_append) simp
  then show ?thesis
    unfolding has_more_than_two_blank_lines_char
    using a b by (simp only: map_append concat_append append_Nil2)
qed

lemma blank_run_two:
  assumes "strip b1 = []" "strip b2 = []" "pre = [] \<or> strip (last pre) \<noteq> []"
  shows "blank_run_before (pre @ [b1, b2, c] @ post) (length pre + 2) = 2"
proof -
  have "take (length pre + 2) (pre @ [b1, b2, c] @ post) = pre @ [b1, b2]"
    by simp
  then have "blank_run_before (pre @ [b1, b2, c] @ post) (length pre + 2)
      = length (takeWhile (\<lambda>l. strip l = []) (b2 # b1 # rev pre))"
    unfolding blank_run_before_def by simp
  also have "\<dots> = 2"
    using assms by (cases pre rule: rev_cases) auto
  finally show ?thesis .
qed

lemma blank_two_silent:
  assumes "strip b1 = []" "strip b2 = []" "pre = [] \<or> strip (last pre) \<noteq> []"
  shows "int (length pre) + 3 \<notin> set (has_more_than_two_blank_lines (pre @ [b1, b2, c] @ post))"
proof
  assume "int (length pre) + 3 \<in> set (has_more_than_two_blank_lines (pre @ [b1, b2, c] @ post))"
  then obtain i where i: "int (length pre) + 3 = int i + 1"
      and r: "2 < blank_run_before (pre @ [b1, b2, c] @ post) i"
    unfolding in_has_more_than_two_blank_lines by blast
  from i have "i = length pre + 2" by linarith
  with r blank_run_two [OF assms, of c post] show False by simp
qed

text \<open>
  Claim C3. The blank-run rule reports, for every line sequence, exactly the lines (counted
  from 1) that are not blank and come right after a maximal run of more than two blank
  lines, each once and in increasing order. Blank lines at the end of the file change
  nothing, and a run of exactly two blank lines reports nothing at the line that follows it.
\<close>

theorem blank_run_rule:
  "has_more_than_two_blank_lines lines =
     [int i + 1. i \<leftarrow> [0..<length lines], strip (lines ! i) \<noteq> [] \<and> 2 < blank_run_before lines i]
   \<and> distinct (has_more_than_two_blank_lines lines)
   \<and> ((\<forall>l \<in> set trailing. strip l = []) \<longrightarrow>
        has_more_than_two_blank_lines (lines @ trailing) = has_more_than_two_blank_lines lines)
   \<and> (strip b1 = [] \<and> strip b2 = [] \<and> (pre = [] \<or> strip (last pre) \<noteq> []) \<longrightarrow>
        int (length pre) + 3 \<notin> set (has_more_than_two_blank_lines (pre @ [b1, b2, c] @ post)))"
proof (intro conjI impI)
  show "has_more_than_two_blank_lines lines =
     [int i + 1. i \<leftarrow> [0..<length lines], strip (lines ! i) \<noteq> [] \<and> 2 < blank_run_before lines i]"
    by (rule has_more_than_two_blank_lines_char)
  show "distinct (has_more_than_two_blank_lines lines)"
    unfolding has_more_than_two_blank_lines_char concat_if_map_filter
    by (simp add: distinct_map inj_on_def)
next
  assume "\<forall>l \<in> set trailing. strip l = []"
  then show "has_more_than_two_blank_lines (lines @ trailing) = has_more_than_two_blank_lines lines"
    by (rule blank_trailing)
next
  assume "strip b1 = [] \<and> strip b2 = [] \<and> (pre = [] \<or> strip (last pre) \<noteq> [])"
  then show "int (length pre) + 3 \<notin> set (has_more_than_two_blank_lines (pre @ [b1, b2, c] @ post))"
    using blank_two_silent [of b1 b2 pre c post] by (elim conjE)
qed

theorem blank_run_rule_witness:
  "has_more_than_two_blank_lines [''a'', '''', '''', '''', ''b''] = [5]
   \<and> has_more_than_two_blank_lines ([''a'', '''', '''', '''', ''b''] @ ['''', '' '', '''']) = [5]
   \<and> 4 \<notin> set (has_more_than_two_blank_lines ([''x''] @ ['''', '' '', ''y''] @ []))"
proof -
  note r = blank_run_rule [of "[''a'', '''', '''', '''', ''b'']" "['''', '' '', '''']" "''''" "'' ''"
        "[''x'']" "''y''" "[]"]
  have e: "has_more_than_two_blank_lines [''a'', '''', '''', '''', ''b''] = [5]"
    by (simp add: has_more_than_two_blank_lines_def strip_def rstrip_def lstrip_def isspace_def ord_def)
  have h1: "\<forall>l \<in> set ['''', '' '', '''']. strip l = []"
    by (simp add: strip_def rstrip_def lstrip_def isspace_def ord_def)
  have h2: "strip '''' = [] \<and> strip '' '' = [] \<and> ([''x''] = [] \<or> strip (last [''x'']) \<noteq> [])"
    by (simp add: strip_def rstrip_def lstrip_def isspace_def ord_def)
  have t: "has_more_than_two_blank_lines ([''a'', '''', '''', '''', ''b''] @ ['''', '' '', ''''])
      = has_more_than_two_blank_lines [''a'', '''', '''', '''', ''b'']"
    by (rule r [THEN conjunct2, THEN conjunct2, THEN conjunct1, THEN mp, OF h1])
  have s: "4 \<notin> set (has_more_than_two_blank_lines ([''x''] @ ['''', '' '', ''y''] @ []))"
    using r [THEN conjunct2, THEN conjunct2, THEN conjunct2, THEN mp, OF h2] by simp
  from e t s show ?thesis by simp
qed

section \<open>The report and the file analyzer: proofs\<close>

lemma issue_key_inj: "inj issue_key"
  by (auto simp: inj_on_def issue_key_def prod_eq_iff)

lemma sort_key_issue_key_perm:
  assumes "mset xs = mset ys"
  shows "sort_key issue_key xs = sort_key issue_key ys"
proof -
  have "mset (map issue_key (sort_key issue_key ys)) = mset (map issue_key xs)"
    using assms by simp
  then have a: "sort (map issue_key xs) = map issue_key (sort_key issue_key ys)"
    by (rule properties_for_sort) (rule sorted_sort_key)
  have "mset (map issue_key (sort_key issue_key xs)) = mset (map issue_key xs)"
    by simp
  then have b: "sort (map issue_key xs) = map issue_key (sort_key issue_key xs)"
    by (rule properties_for_sort) (rule sorted_sort_key)
  from a b have "map issue_key (sort_key issue_key xs) = map issue_key (sort_key issue_key ys)"
    by simp
  then show ?thesis
    using issue_key_inj by (simp add: inj_map_eq_map)
qed

lemma print_issues_perm:
  "mset xs = mset ys \<Longrightarrow> relpath e' = relpath e \<Longrightarrow> print_issues e' xs = print_issues e ys"
  using sort_key_issue_key_perm [of xs ys]
  by (simp add: print_issues_def render_def fun_eq_iff)

lemma analyze_file_cong:
  "read_file e' = read_file e \<Longrightarrow> ast_parse e' = ast_parse e \<Longrightarrow> analyze_file e' p = analyze_file e p"
  by (simp add: analyze_file_def analyze_code_with_ast_def split: sum.splits)

definition issues_of :: "env \<Rightarrow> string \<Rightarrow> issue list" where
  "issues_of e p = (case analyze_file e p of Inl err \<Rightarrow> [] | Inr file_issues \<Rightarrow> file_issues)"

lemma analyze_files_Inr:
  "analyze_files e ps acc = Inr r \<longleftrightarrow>
     (\<forall>p \<in> set ps. \<exists>file_issues. analyze_file e p = Inr file_issues)
     \<and> r = acc @ concat (map (issues_of e) ps)"
  by (induction ps arbitrary: acc) (auto simp: issues_of_def split: sum.splits)

lemma mset_concat_perm:
  "mset ps = mset qs \<Longrightarrow> mset (concat (map f ps)) = mset (concat (map f qs))"
proof -
  assume a: "mset ps = mset qs"
  have "mset (concat (map f zs)) = sum_mset (image_mset (\<lambda>p. mset (f p)) (mset zs))" for zs
    by (induction zs) simp_all
  with a show ?thesis by simp
qed

lemma analyze_files_perm:
  assumes "mset ps' = mset ps" and "analyze_files e ps [] = Inr r"
  shows "\<exists>r'. analyze_files e ps' [] = Inr r' \<and> mset r' = mset r"
proof -
  from assms(1) have s: "set ps' = set ps" by (rule mset_eq_setD)
  from assms(2) have ok: "\<forall>p \<in> set ps. \<exists>file_issues. analyze_file e p = Inr file_issues"
    and r: "r = concat (map (issues_of e) ps)"
    by (simp_all add: analyze_files_Inr)
  from ok s have "analyze_files e ps' [] = Inr (concat (map (issues_of e) ps'))"
    by (simp add: analyze_files_Inr)
  moreover have "mset (concat (map (issues_of e) ps')) = mset r"
    unfolding r using assms(1) by (rule mset_concat_perm)
  ultimately show ?thesis by blast
qed

lemma analyze_files_cong:
  "read_file e' = read_file e \<Longrightarrow> ast_parse e' = ast_parse e \<Longrightarrow>
     analyze_files e' ps acc = analyze_files e ps acc"
  by (induction ps arbitrary: acc) (simp_all add: analyze_file_cong [of e' e] split: sum.splits)

text \<open>
  Claim C8. Two runs of the script on the same input print the same report: when two
  environments agree on what every file holds, on how it parses and on the relative paths,
  and the directory walk yields the same Python files (in whatever order), a report that
  one run prints is printed, line for line, by the other.
\<close>

theorem report_deterministic:
  assumes "read_file e' = read_file e" and "ast_parse e' = ast_parse e"
    and "relpath e' = relpath e" and "isdir e' = isdir e" and "isfile e' = isfile e"
    and "mset (python_files e' path) = mset (python_files e path)"
    and "main e path = Inr report"
  shows "main e' path = Inr report"
proof (cases "isdir e path")
  case True
  with assms(7) obtain found where a: "analyze_files e (python_files e path) [] = Inr found"
    and rep: "report = print_issues e found"
    by (auto simp: main_def analyze_directory_def split: sum.splits)
  from analyze_files_perm [OF assms(6) a] obtain found'
    where a': "analyze_files e (python_files e' path) [] = Inr found'"
      and m: "mset found' = mset found"
    by blast
  from a' have "analyze_directory e' path = Inr found'"
    by (simp add: analyze_directory_def analyze_files_cong [OF assms(1,2)])
  moreover have "print_issues e' found' = report"
    unfolding rep using m assms(3) by (rule print_issues_perm)
  ultimately show ?thesis
    using True assms(4) by (simp add: main_def)
next
  case False
  with assms(7) obtain found where f: "isfile e path" and a: "analyze_file e path = Inr found"
    and rep: "report = print_issues e found"
    by (auto simp: main_def split: sum.splits if_splits)
  have "print_issues e' found = report"
    unfolding rep using assms(3) by (intro print_issues_perm refl)
  then show ?thesis
    using False f a assms(4,5) by (simp add: main_def analyze_file_cong [OF assms(1,2)])
qed

theorem report_deterministic_witness:
  "main (sample_dir_env [''notes.txt'', ''b.py'', ''a.py'']) ''d'' =
     Inr [''d/a.py: Line 1: S003 Unnecessary semicolon'',
          ''d/b.py: Line 1: S004 At least two spaces required before inline comments'',
          ''d/b.py: Line 1: S005 TODO found'']"
proof -
  have m: "main (sample_dir_env [''a.py'', ''b.py'', ''notes.txt'']) ''d'' =
     Inr [''d/a.py: Line 1: S003 Unnecessary semicolon'',
          ''d/b.py: Line 1: S004 At least two spaces required before inline comments'',
          ''d/b.py: Line 1: S005 TODO found'']"
    by code_simp
  have p: "mset (python_files (sample_dir_env [''notes.txt'', ''b.py'', ''a.py'']) ''d'')
      = mset (python_files (sample_dir_env [''a.py'', ''b.py'', ''notes.txt'']) ''d'')"
    by (simp add: python_files_def sample_dir_env_def endswith_def os_path_join_def startswith_def)
  show ?thesis
    by (rule report_deterministic [OF _ _ _ _ _ p m]) (simp_all add: sample_dir_env_def)
qed

text \<open>
  Claim C1, as amended. When the text of a file does not parse, \<open>analyze_file\<close> raises the
  parser's exception after the line rules have run, so it returns no issue list, and the
  script, called on that file, prints no report. When the text parses, \<open>analyze_file\<close> returns
  the issues of the line rules and of the blank-run rule, followed by those of the tree rules.
\<close>

theorem analyze_file_parse_outcome:
  assumes "read_file e file_path = Inr code"
  shows "(ast_parse e code = Inl err \<longrightarrow> analyze_file e file_path = Inl err)
    \<and> (ast_parse e code = Inl err \<and> \<not> isdir e file_path \<and> isfile e file_path \<longrightarrow>
         main e file_path = Inl err)
    \<and> (ast_parse e code = Inr tree \<longrightarrow>
         analyze_file e file_path =
           Inr (line_issues code file_path @ check_function_defs tree file_path))"
  using assms by (simp add: analyze_file_def analyze_code_with_ast_def main_def)

theorem analyze_file_parse_outcome_witness:
  "analyze_file unparsable_env ''f.py'' = Inl SyntaxError
   \<and> main unparsable_env ''f.py'' = Inl SyntaxError
   \<and> analyze_file (sample_dir_env []) ''d/a.py'' =
       Inr (line_issues ''x = 1;'' ''d/a.py''
            @ check_function_defs (Other [Assign [Name ''x''] (Other []) 1]) ''d/a.py'')"
proof -
  have r1: "read_file unparsable_env ''f.py'' = Inr ''def f(:;''"
    by (simp add: unparsable_env_def)
  have h1: "ast_parse unparsable_env ''def f(:;'' = Inl SyntaxError"
    by (simp add: unparsable_env_def)
  have h2: "ast_parse unparsable_env ''def f(:;'' = Inl SyntaxError
      \<and> \<not> isdir unparsable_env ''f.py'' \<and> isfile unparsable_env ''f.py''"
    by (simp add: unparsable_env_def)
  have r2: "read_file (sample_dir_env []) ''d/a.py'' = Inr ''x = 1;''"
    by (simp add: sample_dir_env_def)
  have h3: "ast_parse (sample_dir_env []) ''x = 1;'' = Inr (Other [Assign [Name ''x''] (Other []) 1])"
    by (simp add: sample_dir_env_def)
  note a = analyze_file_parse_outcome [OF r1, of SyntaxError]
  note b = analyze_file_parse_outcome [OF r2]
  show ?thesis
    using a [THEN conjunct1, THEN mp, OF h1] a [THEN conjunct2, THEN conjunct1, THEN mp, OF h2]
      b [THEN conjunct2, THEN conjunct2, THEN mp, OF h3]
    by (intro conjI)
qed

text \<open>
  The claim as stated fails: the text \<^verbatim>\<open>def f(:;\<close> does not parse and has a line-level
  issue (S003), and neither \<open>analyze_file\<close> nor the script reports it.
\<close>

theorem analyze_file_parse_failure_counterexample:
  "read_file unparsable_env ''f.py'' = Inr ''def f(:;''
   \<and> ast_parse unparsable_env ''def f(:;'' = Inl SyntaxError
   \<and> line_issues ''def f(:;'' ''f.py'' = [(1, ''S003 Unnecessary semicolon'', ''f.py'')]
   \<and> analyze_file unparsable_env ''f.py'' = Inl SyntaxError
   \<and> main unparsable_env ''f.py'' = Inl SyntaxError"
proof -
  have "line_issues ''def f(:;'' ''f.py'' = [(1, ''S003 Unnecessary semicolon'', ''f.py'')]"
    by code_simp
  then show ?thesis
    by (simp add: unparsable_env_def analyze_file_def analyze_code_with_ast_def main_def)
qed

text \<open>
  Claim C4. \<open>has_todo_comment\<close> searches the text between the first and the second comment
  marker only: on \<^verbatim>\<open>x = 1  # note # TODO fix\<close> the text after the first marker contains
  \<open>todo\<close>, and the rule does not fire.
\<close>

theorem has_todo_comment_second_marker:
  "has_todo_comment ''x = 1  # note # TODO fix'' = False
   \<and> split1 CHR ''#'' ''x = 1  # note # TODO fix'' ! 1 = '' note # TODO fix''
   \<and> str_in ''todo'' (lower '' note # TODO fix'')
   \<and> has_todo_comment ''x = 1  # TODO fix'' = True"
  by code_simp

text \<open>
  Claim C2. \<open>print_issues\<close> renders the issues in ascending order of the key (file path,
  line number, message), a permutation of the issues given; paths and messages compare as
  strings, code point by code point. Issues of one file on lines 5, 3, 3 with codes S002,
  S008, S001 come out as line 3/S001, line 3/S008, line 5/S002.
\<close>

theorem print_issues_sorted:
  "print_issues e issues = map (render e) (sort_key issue_key issues)
   \<and> issue_key (line_number, message, file_path) = (file_path, line_number, message)
   \<and> sorted (map issue_key (sort_key issue_key issues))
   \<and> mset (sort_key issue_key issues) = mset issues
   \<and> (issue_key (l1, m1, f1) \<le> issue_key (l2, m2, f2)
        \<longleftrightarrow> f1 < f2 \<or> f1 = f2 \<and> (l1 < l2 \<or> l1 = l2 \<and> m1 \<le> m2))
   \<and> print_issues (e\<lparr>relpath := \<lambda>p. p\<rparr>)
       [(5, ''S002 Indentation is not a multiple of four'', ''a.py''),
        (3, ''S008 Class name '' @ quoted ''foo'' @ '' should use CamelCase'', ''a.py''),
        (3, ''S001 Too long'', ''a.py'')]
     = [''a.py: Line 3: S001 Too long'',
        ''a.py: Line 3: S008 Class name '' @ quoted ''foo'' @ '' should use CamelCase'',
        ''a.py: Line 5: S002 Indentation is not a multiple of four'']"
proof -
  have d: "str_int 3 = ''3''" "str_int 5 = ''5''" by code_simp+
  have ex: "print_issues (e\<lparr>relpath := \<lambda>p. p\<rparr>)
       [(5, ''S002 Indentation is not a multiple of four'', ''a.py''),
        (3, ''S008 Class name '' @ quoted ''foo'' @ '' should use CamelCase'', ''a.py''),
        (3, ''S001 Too long'', ''a.py'')]
     = [''a.py: Line 3: S001 Too long'',
        ''a.py: Line 3: S008 Class name '' @ quoted ''foo'' @ '' should use CamelCase'',
        ''a.py: Line 5: S002 Indentation is not a multiple of four'']"
    by (simp add: print_issues_def issue_key_def render_def quoted_def d)
  have ord: "issue_key (l1, m1, f1) \<le> issue_key (l2, m2, f2)
        \<longleftrightarrow> f1 < f2 \<or> f1 = f2 \<and> (l1 < l2 \<or> l1 = l2 \<and> m1 \<le> m2)"
    by (auto simp: issue_key_def less_eq_prod_def)
  show ?thesis
    using ex ord by (simp add: print_issues_def issue_key_def)
qed

section \<open>Line rules that use patterns: proofs\<close>

lemma re_run_Seq_Sym:
  "re_run (Seq (Sym p) r) st =
     (case rest st of
        [] \<Rightarrow> []
      | c # cs \<Rightarrow> if p c then re_run r (st\<lparr>prev := Some c, rest := cs\<rparr>) else [])"
  by (simp split: list.splits)

lemma re_run_Seq_last:
  assumes "st' \<in> set (re_run (Seq a b) st)"
  obtains st1 where "st1 \<in> set (re_run a st)" and "st' \<in> set (re_run b st1)"
  using assms by auto

lemma class_match_startswith:
  assumes "re_match class_name_re line = Some m"
  shows "startswith line ''class''"
proof -
  from assms have "re_run class_name_re \<lparr>prev = None, rest = line, group1 = None\<rparr> \<noteq> []"
    by (auto simp: re_match_def split: list.splits)
  then show ?thesis
    by (auto simp: class_name_re_def lit_def startswith_def split: list.splits if_splits)
qed

lemma class_match_group1:
  assumes "re_match class_name_re line = Some m"
  shows "group1 m \<noteq> None"
proof -
  from assms have "m \<in> set (re_run class_name_re \<lparr>prev = None, rest = line, group1 = None\<rparr>)"
    by (auto simp: re_match_def split: list.splits)
  then obtain st1 where "m \<in> set (re_run (Group (Rep 1 (Sym is_word))) st1)"
    unfolding class_name_re_def lit_def by (auto simp only: list.map seqs.simps elim!: re_run_Seq_last)
  then show ?thesis by auto
qed

text \<open>
  Claim C9. Rule S008 fires only on a line that starts with the keyword \<open>class\<close>; on a line
  where white space comes before \<open>class\<close> it never fires, whatever the class name.
\<close>

theorem s008_only_at_column_zero:
  "((\<exists>i \<in> set (check_line line_number line file_path). issue_code i = ''S008'') \<longrightarrow>
      startswith line ''class'')
   \<and> (ws \<noteq> [] \<and> (\<forall>c \<in> set ws. isspace c) \<longrightarrow>
        (\<forall>i \<in> set (check_line line_number (ws @ ''class'' @ after) file_path).
           issue_code i \<noteq> ''S008''))"
proof -
  have a: "startswith l ''class''"
    if "i \<in> set (check_line n l fp)" and "issue_code i = ''S008''" for i n l fp
    using that class_match_startswith [of l] class_match_startswith [OF sym, of _ l]
    by (auto simp: check_line_def issue_code_def split: if_splits option.splits prod.splits)
  have b: "\<not> startswith (ws @ ''class'' @ after) ''class''" if "ws \<noteq> []" and "\<forall>c \<in> set ws. isspace c"
  proof -
    from that obtain w ws' where "ws = w # ws'" and "isspace w" by (cases ws) auto
    moreover have "\<not> isspace CHR ''c''" by (simp add: isspace_def ord_def)
    ultimately show ?thesis by (auto simp: startswith_def)
  qed
  show ?thesis using a b by blast
qed

theorem s008_only_at_column_zero_witness:
  "startswith ''class abc:'' ''class''
   \<and> \<not> (\<exists>i \<in> set (check_line 1 (''    '' @ ''class'' @ '' abc:'') ''f.py''). issue_code i = ''S008'')"
proof -
  have h1: "\<exists>i \<in> set (check_line 1 ''class abc:'' ''f.py''). issue_code i = ''S008''"
    by code_simp
  have h2: "''    '' \<noteq> [] \<and> (\<forall>c \<in> set ''    ''. isspace c)"
    by (simp add: isspace_def ord_def)
  note r = s008_only_at_column_zero [of 1 _ "''f.py''" "''    ''" "'' abc:''"]
  have a: "startswith ''class abc:'' ''class''"
    by (rule r [THEN conjunct1, THEN mp, OF h1])
  have b: "\<forall>i \<in> set (check_line 1 (''    '' @ ''class'' @ '' abc:'') ''f.py''). issue_code i \<noteq> ''S008''"
    by (rule r [THEN conjunct2, THEN mp, OF h2])
  from a b show ?thesis by blast
qed

section \<open>Tree rules: proofs\<close>

lemma target_issues_iff:
  "i \<in> set (target_issues t l fp) \<longleftrightarrow> (\<exists>v. t = Name v \<and> \<not> is_snake_case v \<and> i = s011_issue l v fp)"
  by (cases t) (auto simp: s011_issue_def)

lemma body_node_issues_iff:
  "i \<in> set (body_node_issues n fp) \<longleftrightarrow>
     (\<exists>ts val l v. n = NodeA (Assign ts val l) \<and> Name v \<in> set ts \<and> \<not> is_snake_case v
        \<and> i = s011_issue l v fp)"
proof (cases n)
  case (NodeA x)
  then show ?thesis
    by (cases x) (auto simp: target_issues_iff)
qed simp_all

lemma s011_issue_inj: "s011_issue l v fp = s011_issue l' v' fp' \<longleftrightarrow> l = l' \<and> v = v' \<and> fp = fp'"
  by (auto simp: s011_issue_def quoted_def)

lemma check_function_body_for_variables_iff:
  "i \<in> set (check_function_body_for_variables f fp) \<longleftrightarrow>
     (\<exists>ts val l v. NodeA (Assign ts val l) \<in> set (walk (NodeA f)) \<and> Name v \<in> set ts
        \<and> \<not> is_snake_case v \<and> i = s011_issue l v fp)"
  unfolding check_function_body_for_variables_def set_concat set_map
  by (auto simp: body_node_issues_iff) blast+

lemma issue_code_s011 [simp]: "issue_code (s011_issue l v fp) = ''S011''"
  by (simp add: issue_code_def s011_issue_def)

lemma issue_code_s012 [simp]: "issue_code (s012_issue l fp) = ''S012''"
  by (simp add: issue_code_def s012_issue_def)

lemma check_function_args_code:
  "i \<in> set (check_function_args f fp) \<Longrightarrow> issue_code i = ''S010''"
  by (auto simp: check_function_args_def issue_code_def split: if_splits)

lemma check_function_body_for_variables_code:
  "i \<in> set (check_function_body_for_variables f fp) \<Longrightarrow> issue_code i = ''S011''"
  by (auto simp: check_function_body_for_variables_iff)

lemma check_mutable_default_arguments_eq:
  "check_mutable_default_arguments f fp =
     map (\<lambda>default. s012_issue (lineno f) fp) (filter is_list_dict_set (defaults (args f)))"
  by (simp add: check_mutable_default_arguments_def s012_issue_def concat_if_map_filter)

lemma is_list_dict_set_iff:
  "is_list_dict_set dflt \<longleftrightarrow>
     (\<exists>elts. dflt = List elts) \<or> (\<exists>keys vals. dflt = Dict keys vals)
     \<or> (\<exists>elts. dflt = Set elts)"
  by (cases dflt) simp_all

lemma s012_in_function_def_issues:
  "s012_issue l' fp \<in> set (function_def_issues x fp) \<longleftrightarrow>
     (\<exists>n a b d r dflt. x = NodeA (FunctionDef n a b d r l') \<and> dflt \<in> set (defaults a)
        \<and> is_list_dict_set dflt)"
proof (cases x)
  case (NodeA y)
  show ?thesis
  proof (cases y)
    case (FunctionDef n a b d r l)
    have "s012_issue l' fp \<notin> set (check_function_args y fp)"
      using check_function_args_code [of "s012_issue l' fp" y fp] by auto
    moreover have "s012_issue l' fp \<notin> set (check_function_body_for_variables y fp)"
      using check_function_body_for_variables_code [of "s012_issue l' fp" y fp] by auto
    moreover have "s012_issue l' fp \<noteq> (l, ''S009 Function name '' @ quoted n @ '' should use snake_case'', fp)"
      by (simp add: s012_issue_def)
    moreover have "s012_issue l' fp \<in> set (check_mutable_default_arguments y fp) \<longleftrightarrow>
        l = l' \<and> (\<exists>dflt \<in> set (defaults a). is_list_dict_set dflt)"
      unfolding check_mutable_default_arguments_eq using FunctionDef
      by (auto simp: s012_issue_def)
    ultimately show ?thesis
      using NodeA FunctionDef by auto
  qed (simp_all add: NodeA)
qed simp_all

text \<open>
  Claim C5, as amended. For a function declaration, S012 is reported once for every default
  value of a positional argument (the list \<open>args.defaults\<close>) that is a list, dict or set
  display, at the line of the function, and for no call, name or other expression; in the
  whole tree, an S012 issue stands at a line exactly when a \<open>FunctionDef\<close> node met by the
  walk has such a default at that line. The defaults of keyword-only arguments
  (\<open>args.kw_defaults\<close>) are not looked at.
\<close>

theorem s012_positional_defaults:
  "check_mutable_default_arguments (FunctionDef n a b d r l) filepath =
     map (\<lambda>dflt. s012_issue l filepath) (filter is_list_dict_set (defaults a))
   \<and> (is_list_dict_set dflt \<longleftrightarrow>
        (\<exists>elts. dflt = List elts) \<or> (\<exists>keys vals. dflt = Dict keys vals)
        \<or> (\<exists>elts. dflt = Set elts))
   \<and> (s012_issue l' filepath \<in> set (check_function_defs tree filepath) \<longleftrightarrow>
        (\<exists>n a b d r dflt. NodeA (FunctionDef n a b d r l') \<in> set (walk (NodeA tree))
           \<and> dflt \<in> set (defaults a) \<and> is_list_dict_set dflt))"
proof (intro conjI)
  show "check_mutable_default_arguments (FunctionDef n a b d r l) filepath =
     map (\<lambda>dflt. s012_issue l filepath) (filter is_list_dict_set (defaults a))"
    by (simp add: check_mutable_default_arguments_eq)
  show "is_list_dict_set dflt \<longleftrightarrow>
        (\<exists>elts. dflt = List elts) \<or> (\<exists>keys vals. dflt = Dict keys vals)
        \<or> (\<exists>elts. dflt = Set elts)"
    by (rule is_list_dict_set_iff)
  show "s012_issue l' filepath \<in> set (check_function_defs tree filepath) \<longleftrightarrow>
        (\<exists>n a b d r dflt. NodeA (FunctionDef n a b d r l') \<in> set (walk (NodeA tree))
           \<and> dflt \<in> set (defaults a) \<and> is_list_dict_set dflt)"
  proof -
    have "s012_issue l' filepath \<in> set (check_function_defs tree filepath) \<longleftrightarrow>
        (\<exists>x \<in> set (walk (NodeA tree)). s012_issue l' filepath \<in> set (function_def_issues x filepath))"
      by (simp add: check_function_defs_def)
    also have "\<dots> \<longleftrightarrow> (\<exists>n a b d r dflt. NodeA (FunctionDef n a b d r l') \<in> set (walk (NodeA tree))
           \<and> dflt \<in> set (defaults a) \<and> is_list_dict_set dflt)"
      unfolding s012_in_function_def_issues by blast
    finally show ?thesis .
  qed
qed

text \<open>
  The claim as stated fails: in \<^verbatim>\<open>def f(*, a=[]): pass\<close> the default bound to the formal
  argument \<open>a\<close> is a list display, and no S012 issue is reported.
\<close>

theorem s012_keyword_only_counterexample:
  "check_function_defs
     (Other [FunctionDef ''f'' (Arguments [] [] None [Arg ''a'' None 1] [Some (List [])] None [])
               [Other []] [] None 1]) ''m.py'' = []
   \<and> kw_defaults (Arguments [] [] None [Arg ''a'' None 1] [Some (List [])] None []) = [Some (List [])]
   \<and> is_list_dict_set (List [])"
proof -
  have "check_function_defs
     (Other [FunctionDef ''f'' (Arguments [] [] None [Arg ''a'' None 1] [Some (List [])] None [])
               [Other []] [] None 1]) ''m.py'' = []"
    by code_simp
  then show ?thesis by simp
qed

theorem s012_positional_defaults_witness:
  "check_mutable_default_arguments
     (FunctionDef ''f'' (Arguments [] [Arg ''a'' None 1] None [] [] None [List []]) [Other []] [] None 1)
     ''m.py'' = [s012_issue 1 ''m.py'']
   \<and> check_mutable_default_arguments
     (FunctionDef ''f'' (Arguments [] [Arg ''a'' None 1] None [] [] None [Other [Name ''make'']])
        [Other []] [] None 1)
     ''m.py'' = []"
  using s012_positional_defaults [THEN conjunct1, of "''f''"
      "Arguments [] [Arg ''a'' None 1] None [] [] None [List []]" "[Other []]" "[]" None 1 "''m.py''"]
    s012_positional_defaults [THEN conjunct1, of "''f''"
      "Arguments [] [Arg ''a'' None 1] None [] [] None [Other [Name ''make'']]" "[Other []]" "[]" None 1
      "''m.py''"]
  by simp

lemma filter_s011_function_def_issues:
  "filter (\<lambda>i. issue_code i = ''S011'') (function_def_issues x fp) = function_body_issues x fp"
proof (cases x)
  case (NodeA y)
  show ?thesis
  proof (cases y)
    case (FunctionDef n a b d r l)
    have 1: "filter (\<lambda>i. issue_code i = ''S011'') (check_function_args y fp) = []"
      using check_function_args_code [of _ y fp] by (auto simp: filter_empty_conv)
    have 2: "filter (\<lambda>i. issue_code i = ''S011'') (check_function_body_for_variables y fp)
        = check_function_body_for_variables y fp"
      using check_function_body_for_variables_code [of _ y fp] by (simp add: filter_id_conv)
    have 3: "filter (\<lambda>i. issue_code i = ''S011'') (check_mutable_default_arguments y fp) = []"
      by (simp add: check_mutable_default_arguments_eq filter_empty_conv)
    have 4: "issue_code (l, ''S009 Function name '' @ quoted n @ '' should use snake_case'', fp) \<noteq> ''S011''"
      by (simp add: issue_code_def)
    show ?thesis
      using 1 2 3 4 NodeA FunctionDef by simp
  qed (simp_all add: NodeA)
qed simp_all

lemma filter_s011_check_function_defs:
  "filter (\<lambda>i. issue_code i = ''S011'') (check_function_defs tree fp) =
     concat (map (\<lambda>x. function_body_issues x fp) (walk (NodeA tree)))"
  by (simp add: check_function_defs_def filter_concat comp_def filter_s011_function_def_issues)

lemma walk_nested_def_Suc:
  "walk (NodeA (nested_def (Suc k) stmt)) =
     NodeA (nested_def (Suc k) stmt) # ArgumentsA no_arguments # walk (NodeA (nested_def k stmt))"
  by (simp add: walk_def no_arguments_def present_def)

lemma walk_Other_single: "walk (NodeA (Other [x])) = NodeA (Other [x]) # walk (NodeA x)"
  by (simp add: walk_def)

lemma walk_simple_assign:
  "walk (NodeA (Assign [Name v] (Other []) l)) =
     [NodeA (Assign [Name v] (Other []) l), NodeA (Name v), NodeA (Other [])]"
  by (simp add: walk_def)

lemma body_issues_nested_def:
  "concat (map (\<lambda>x. body_node_issues x fp) (walk (NodeA (nested_def k (Assign [Name v] (Other []) l)))))
     = target_issues (Name v) l fp"
proof (induction k)
  case 0
  show ?case by (simp add: walk_simple_assign)
next
  case (Suc k)
  have "body_node_issues (NodeA (nested_def (Suc k) (Assign [Name v] (Other []) l))) fp = []"
    by simp
  with Suc show ?case
    by (simp only: walk_nested_def_Suc list.map concat.simps body_node_issues.simps append_Nil)
qed

lemma snake_case_f: "is_snake_case ''f''"
  by code_simp

lemma function_def_issues_nested_def:
  assumes "\<not> is_snake_case v"
  shows "function_def_issues (NodeA (nested_def (Suc k) (Assign [Name v] (Other []) l))) fp
     = [s011_issue l v fp]"
proof -
  have "check_function_body_for_variables (nested_def (Suc k) (Assign [Name v] (Other []) l)) fp
      = [s011_issue l v fp]"
    unfolding check_function_body_for_variables_def body_issues_nested_def
    using assms by (simp add: s011_issue_def)
  then show ?thesis
    by (simp add: snake_case_f check_function_args_def check_mutable_default_arguments_def
        no_arguments_def)
qed

lemma check_function_defs_nested_def:
  assumes "\<not> is_snake_case v"
  shows "concat (map (\<lambda>x. function_def_issues x fp)
           (walk (NodeA (nested_def k (Assign [Name v] (Other []) l)))))
     = replicate k (s011_issue l v fp)"
proof (induction k)
  case 0
  show ?case by (simp add: walk_simple_assign)
next
  case (Suc k)
  show ?case
    unfolding walk_nested_def_Suc list.map concat.simps function_def_issues_nested_def [OF assms] Suc
    by simp
qed

text \<open>
  Claim C10. The S011 issues of a tree are those of \<open>check_function_body_for_variables\<close>
  for every \<open>FunctionDef\<close> node that the walk meets, one after the other, and each of these
  walks the whole subtree of its function: an assignment to a name that is not snake_case
  inside \<open>k\<close> nested function definitions is reported \<open>k\<close> times.
\<close>

theorem s011_per_enclosing_function:
  "filter (\<lambda>i. issue_code i = ''S011'') (check_function_defs tree filepath) =
     concat (map (\<lambda>x. function_body_issues x filepath) (walk (NodeA tree)))
   \<and> (\<not> is_snake_case v \<longrightarrow>
        check_function_defs (Other [nested_def k (Assign [Name v] (Other []) l)]) filepath
          = replicate k (s011_issue l v filepath))"
proof (intro conjI impI)
  show "filter (\<lambda>i. issue_code i = ''S011'') (check_function_defs tree filepath) =
     concat (map (\<lambda>x. function_body_issues x filepath) (walk (NodeA tree)))"
    by (rule filter_s011_check_function_defs)
next
  assume "\<not> is_snake_case v"
  then show "check_function_defs (Other [nested_def k (Assign [Name v] (Other []) l)]) filepath
          = replicate k (s011_issue l v filepath)"
    unfolding check_function_defs_def walk_Other_single
    by (simp add: check_function_defs_nested_def)
qed

theorem s011_per_enclosing_function_witness:
  "check_function_defs (Other [nested_def 3 (Assign [Name ''Bad''] (Other []) 4)]) ''m.py''
     = [s011_issue 4 ''Bad'' ''m.py'', s011_issue 4 ''Bad'' ''m.py'', s011_issue 4 ''Bad'' ''m.py'']"
proof -
  have h: "\<not> is_snake_case ''Bad''" by code_simp
  have "replicate 3 x = [x, x, x]" for x :: issue
    by (simp add: numeral_3_eq_3)
  with s011_per_enclosing_function [THEN conjunct2, THEN mp, OF h, of 3 4 "''m.py''"]
  show ?thesis by simp
qed

text \<open>
  Claim C6, as amended. \<open>check_function_body_for_variables\<close> reports S011 exactly for the
  targets that are plain names failing \<open>is_snake_case\<close>, of the \<open>Assign\<close> nodes that the walk from
  the function declaration meets, whatever the number of targets of the assignment; and the
  S011 issues of a tree are exactly those of its \<open>FunctionDef\<close> nodes.
\<close>

theorem s011_name_targets:
  "(i \<in> set (check_function_body_for_variables f filepath) \<longleftrightarrow>
      (\<exists>ts val l v. NodeA (Assign ts val l) \<in> set (walk (NodeA f)) \<and> Name v \<in> set ts
         \<and> \<not> is_snake_case v \<and> i = s011_issue l v filepath))
   \<and> (i \<in> set (check_function_defs tree filepath) \<and> issue_code i = ''S011'' \<longleftrightarrow>
        (\<exists>n a b d r l. NodeA (FunctionDef n a b d r l) \<in> set (walk (NodeA tree))
           \<and> i \<in> set (check_function_body_for_variables (FunctionDef n a b d r l) filepath)))"
proof (intro conjI)
  show "i \<in> set (check_function_body_for_variables f filepath) \<longleftrightarrow>
      (\<exists>ts val l v. NodeA (Assign ts val l) \<in> set (walk (NodeA f)) \<and> Name v \<in> set ts
         \<and> \<not> is_snake_case v \<and> i = s011_issue l v filepath)"
    by (rule check_function_body_for_variables_iff)
  have "i \<in> set (check_function_defs tree filepath) \<and> issue_code i = ''S011'' \<longleftrightarrow>
      i \<in> set (filter (\<lambda>i. issue_code i = ''S011'') (check_function_defs tree filepath))"
    by auto
  also have "\<dots> \<longleftrightarrow> (\<exists>x \<in> set (walk (NodeA tree)). i \<in> set (function_body_issues x filepath))"
    unfolding filter_s011_check_function_defs by simp
  also have "\<dots> \<longleftrightarrow> (\<exists>n a b d r l. NodeA (FunctionDef n a b d r l) \<in> set (walk (NodeA tree))
           \<and> i \<in> set (check_function_body_for_variables (FunctionDef n a b d r l) filepath))"
  proof
    assume "\<exists>x \<in> set (walk (NodeA tree)). i \<in> set (function_body_issues x filepath)"
    then obtain x where x: "x \<in> set (walk (NodeA tree))" "i \<in> set (function_body_issues x filepath)"
      by blast
    then show "\<exists>n a b d r l. NodeA (FunctionDef n a b d r l) \<in> set (walk (NodeA tree))
           \<and> i \<in> set (check_function_body_for_variables (FunctionDef n a b d r l) filepath)"
      by (cases "(x, filepath)" rule: function_body_issues.cases) (auto, blast)
  next
    assume "\<exists>n a b d r l. NodeA (FunctionDef n a b d r l) \<in> set (walk (NodeA tree))
           \<and> i \<in> set (check_function_body_for_variables (FunctionDef n a b d r l) filepath)"
    then show "\<exists>x \<in> set (walk (NodeA tree)). i \<in> set (function_body_issues x filepath)"
      by force
  qed
  finally show "i \<in> set (check_function_defs tree filepath) \<and> issue_code i = ''S011'' \<longleftrightarrow>
        (\<exists>n a b d r l. NodeA (FunctionDef n a b d r l) \<in> set (walk (NodeA tree))
           \<and> i \<in> set (check_function_body_for_variables (FunctionDef n a b d r l) filepath))" .
qed

text \<open>
  The claim as stated fails: the chained assignment \<^verbatim>\<open>a = B = 1\<close> has two targets, and S011
  is reported for \<open>B\<close>.
\<close>

theorem s011_chained_assignment_counterexample:
  "check_function_defs
     (Other [FunctionDef ''f'' no_arguments [Assign [Name ''a'', Name ''B''] (Other []) 2] [] None 1])
     ''m.py'' = [s011_issue 2 ''B'' ''m.py'']
   \<and> length (targets (Assign [Name ''a'', Name ''B''] (Other []) 2)) = 2"
proof -
  have "check_function_defs
     (Other [FunctionDef ''f'' no_arguments [Assign [Name ''a'', Name ''B''] (Other []) 2] [] None 1])
     ''m.py'' = [s011_issue 2 ''B'' ''m.py'']"
    by code_simp
  then show ?thesis by simp
qed

theorem s011_name_targets_witness:
  "s011_issue 2 ''B'' ''m.py''
     \<in> set (check_function_body_for_variables
              (FunctionDef ''f'' no_arguments [Assign [Name ''B''] (Other []) 2] [] None 1) ''m.py'')"
proof -
  have w: "NodeA (Assign [Name ''B''] (Other []) 2)
      \<in> set (walk (NodeA (FunctionDef ''f'' no_arguments [Assign [Name ''B''] (Other []) 2] [] None 1)))"
    by (simp add: walk_def no_arguments_def present_def)
  have h: "\<not> is_snake_case ''B''" by code_simp
  have n: "Name ''B'' \<in> set [Name ''B'']" by simp
  show ?thesis
    using s011_name_targets [THEN conjunct1, THEN iffD2] w n h by blast
qed

end
